theory Spec2Isabelle
  imports Complex_Main
begin

section \<open>Preliminaries: the JavaScript runtime as far as the code uses it\<close>

subsection \<open>Clock readings and \<open>Math.ceil\<close>\<close>

text \<open>
  \<^verbatim>\<open>Date.now()\<close> returns a whole number of milliseconds, so a clock reading is an
  \<open>int\<close>. Every synchronous method of the source reads the clock while it runs; the
  model passes that reading as the argument \<open>now\<close>. \<^verbatim>\<open>Math.ceil(a / b)\<close> on two whole
  numbers is the ceiling of the exact quotient.
\<close>

definition Math_ceil_div :: "int \<Rightarrow> int \<Rightarrow> int" where
  "Math_ceil_div a b = \<lceil>real_of_int a / real_of_int b\<rceil>"

subsection \<open>\<open>Map\<close> objects\<close>

text \<open>
  A JavaScript \<^verbatim>\<open>Map\<close> keeps its keys in insertion order. It is modelled as an
  association list: \<^verbatim>\<open>set\<close> on a present key replaces the value in place, on an absent
  key appends; \<^verbatim>\<open>get\<close> of an absent key is \<^verbatim>\<open>undefined\<close>, here \<open>None\<close>.
\<close>

type_synonym ('k, 'v) jsmap = "('k \<times> 'v) list"

fun Map_get :: "('k, 'v) jsmap \<Rightarrow> 'k \<Rightarrow> 'v option" where
  "Map_get [] k = None"
| "Map_get ((k', v') # m) k = (if k' = k then Some v' else Map_get m k)"

definition Map_has :: "('k, 'v) jsmap \<Rightarrow> 'k \<Rightarrow> bool" where
  "Map_has m k = (Map_get m k \<noteq> None)"

fun Map_set :: "('k, 'v) jsmap \<Rightarrow> 'k \<Rightarrow> 'v \<Rightarrow> ('k, 'v) jsmap" where
  "Map_set [] k v = [(k, v)]"
| "Map_set ((k', v') # m) k v =
     (if k' = k then (k, v) # m else (k', v') # Map_set m k v)"

fun Map_delete :: "('k, 'v) jsmap \<Rightarrow> 'k \<Rightarrow> ('k, 'v) jsmap" where
  "Map_delete [] k = []"
| "Map_delete ((k', v') # m) k =
     (if k' = k then Map_delete m k else (k', v') # Map_delete m k)"

definition Map_size :: "('k, 'v) jsmap \<Rightarrow> nat" where
  "Map_size m = length m"

section \<open>Rate limiting (\<open>utils/rateLimit.js\<close>)\<close>

subsection \<open>CommandCooldownManager\<close>

record CooldownData =
  expiresAt :: int
  violations :: nat

record CommandCooldownManager =
  cooldowns :: "(string, (string, CooldownData) jsmap) jsmap"
  cleanupInterval :: int
  maxViolations :: nat
  baseEscalation :: int

definition new_CommandCooldownManager :: CommandCooldownManager where
  "new_CommandCooldownManager =
     \<lparr>cooldowns = [], cleanupInterval = 60000, maxViolations = 3, baseEscalation = 1000\<rparr>"

text \<open>
  The object a check returns: \<^verbatim>\<open>{ allowed, retryAfter, violations, reason }\<close>, a property
  the source leaves out being \<open>None\<close>. The property \<^verbatim>\<open>violations\<close> of the returned
  object is the field \<open>violationCount\<close>.
\<close>

record CheckResult =
  allowed :: bool
  retryAfter :: "int option"
  violationCount :: "nat option"
  reason :: "string option"

text \<open>
  \<^verbatim>\<open>checkCooldown(userId, commandName, cooldownMs = 5000)\<close>. An omitted third argument
  is \<open>None\<close>. The per-user map is a shared object that the source mutates in place;
  the model writes it back under the same key, which keeps its place in the outer map.
\<close>

definition checkCooldown ::
  "string \<Rightarrow> string \<Rightarrow> int option \<Rightarrow> int \<Rightarrow> CommandCooldownManager
     \<Rightarrow> CheckResult \<times> CommandCooldownManager" where
  "checkCooldown userId commandName cooldownMs_arg now mgr =
     (let cooldownMs = (case cooldownMs_arg of None \<Rightarrow> 5000 | Some ms \<Rightarrow> ms);
          cds = (if \<not> Map_has (cooldowns mgr) userId
                 then Map_set (cooldowns mgr) userId [] else cooldowns mgr);
          userCooldowns = (case Map_get cds userId of None \<Rightarrow> [] | Some u \<Rightarrow> u);
          active = (case Map_get userCooldowns commandName of
                      None \<Rightarrow> None
                    | Some cooldownData \<Rightarrow>
                        if \<not> (now \<ge> expiresAt cooldownData) then Some cooldownData else None)
      in case active of
           Some cooldownData \<Rightarrow>
             (let retry = Math_ceil_div (expiresAt cooldownData - now) 1000;
                  cooldownData' = cooldownData\<lparr>violations := violations cooldownData + 1\<rparr>
              in (\<lparr>allowed = False, retryAfter = Some retry,
                   violationCount = Some (violations cooldownData'), reason = None\<rparr>,
                  mgr\<lparr>cooldowns :=
                    Map_set cds userId (Map_set userCooldowns commandName cooldownData')\<rparr>))
         | None \<Rightarrow>
             (let viol = (case Map_get userCooldowns commandName of
                            None \<Rightarrow> 0 | Some d \<Rightarrow> violations d);
                  escalatedCooldown = cooldownMs + int viol * baseEscalation mgr
              in (\<lparr>allowed = True, retryAfter = None, violationCount = None, reason = None\<rparr>,
                  mgr\<lparr>cooldowns :=
                    Map_set cds userId
                      (Map_set userCooldowns commandName
                         \<lparr>expiresAt = now + escalatedCooldown, violations = 0\<rparr>)\<rparr>)))"

text \<open>The record kept for a (user, command) pair, if any.\<close>

definition cooldownRecord ::
  "CommandCooldownManager \<Rightarrow> string \<Rightarrow> string \<Rightarrow> CooldownData option" where
  "cooldownRecord mgr userId commandName =
     (case Map_get (cooldowns mgr) userId of
        None \<Rightarrow> None
      | Some u \<Rightarrow> Map_get u commandName)"

text \<open>
  Successive checks of one pair with one cooldown, one per clock reading. The constructor
  also starts a timer that removes the expired records once a minute; a sequence of calls
  is one that no run of that timer interrupts.
\<close>

fun checkCooldown_calls ::
  "string \<Rightarrow> string \<Rightarrow> int option \<Rightarrow> int list \<Rightarrow> CommandCooldownManager
     \<Rightarrow> CheckResult list \<times> CommandCooldownManager" where
  "checkCooldown_calls userId commandName cooldownMs_arg [] mgr = ([], mgr)"
| "checkCooldown_calls userId commandName cooldownMs_arg (now # later) mgr =
     (let (r, mgr') = checkCooldown userId commandName cooldownMs_arg now mgr;
          (rs, mgr'') = checkCooldown_calls userId commandName cooldownMs_arg later mgr'
      in (r # rs, mgr''))"

subsection \<open>AntiSpamManager\<close>

record Thresholds =
  messageThreshold :: nat
  timeWindow :: int
  autoMute :: int

record AntiSpamManager =
  messageHistory :: "(string, int list) jsmap"
  thresholds :: Thresholds

definition new_AntiSpamManager :: AntiSpamManager where
  "new_AntiSpamManager =
     \<lparr>messageHistory = [],
      thresholds = \<lparr>messageThreshold = 5, timeWindow = 5000, autoMute = 30000\<rparr>\<rparr>"

record SpamResult =
  isSpamming :: bool
  spamReason :: "string option"
  muteDuration :: "int option"

text \<open>
  \<^verbatim>\<open>checkSpam(userId)\<close>. The filtered list is a fresh array; it replaces the stored one
  only on the path that admits the message. The empty list installed for an unknown user
  stays in the map on both paths.
\<close>

definition checkSpam ::
  "string \<Rightarrow> int \<Rightarrow> AntiSpamManager \<Rightarrow> SpamResult \<times> AntiSpamManager" where
  "checkSpam userId now mgr =
     (let mh = (if \<not> Map_has (messageHistory mgr) userId
                then Map_set (messageHistory mgr) userId [] else messageHistory mgr);
          history = (case Map_get mh userId of None \<Rightarrow> [] | Some h \<Rightarrow> h);
          filteredHistory =
            filter (\<lambda>timestamp. now - timestamp < timeWindow (thresholds mgr)) history
      in if length filteredHistory \<ge> messageThreshold (thresholds mgr)
         then (\<lparr>isSpamming = True, spamReason = Some ''Too many messages'',
                 muteDuration = Some (autoMute (thresholds mgr))\<rparr>,
               mgr\<lparr>messageHistory := mh\<rparr>)
         else (\<lparr>isSpamming = False, spamReason = None, muteDuration = None\<rparr>,
               mgr\<lparr>messageHistory := Map_set mh userId (filteredHistory @ [now])\<rparr>))"

text \<open>The timestamps kept for a user; none for a user the map does not know.\<close>

definition historyOf :: "AntiSpamManager \<Rightarrow> string \<Rightarrow> int list" where
  "historyOf mgr userId =
     (case Map_get (messageHistory mgr) userId of None \<Rightarrow> [] | Some h \<Rightarrow> h)"

text \<open>Successive checks of one user, one per clock reading, results in call order.\<close>

fun checkSpam_calls ::
  "string \<Rightarrow> int list \<Rightarrow> AntiSpamManager \<Rightarrow> SpamResult list \<times> AntiSpamManager" where
  "checkSpam_calls userId [] mgr = ([], mgr)"
| "checkSpam_calls userId (now # later) mgr =
     (let (r, mgr') = checkSpam userId now mgr;
          (rs, mgr'') = checkSpam_calls userId later mgr'
      in (r # rs, mgr''))"

subsection \<open>LeaderboardFarmingPrevention\<close>

record LeaderboardFarmingPrevention =
  lastPointsUpdate :: "(string, int) jsmap"
  minIntervalBetweenUpdates :: int

definition new_LeaderboardFarmingPrevention :: LeaderboardFarmingPrevention where
  "new_LeaderboardFarmingPrevention =
     \<lparr>lastPointsUpdate = [], minIntervalBetweenUpdates = 30000\<rparr>"

text \<open>
  \<^verbatim>\<open>canPerformAction(userId)\<close>. The test \<^verbatim>\<open>!lastUpdate\<close> holds for \<^verbatim>\<open>undefined\<close> and
  also for the number \<open>0\<close>, the only falsy clock reading.
\<close>

definition canPerformAction ::
  "string \<Rightarrow> int \<Rightarrow> LeaderboardFarmingPrevention
     \<Rightarrow> CheckResult \<times> LeaderboardFarmingPrevention" where
  "canPerformAction userId now g =
     (let record_now =
            (\<lparr>allowed = True, retryAfter = None, violationCount = None, reason = None\<rparr>,
             g\<lparr>lastPointsUpdate := Map_set (lastPointsUpdate g) userId now\<rparr>)
      in case Map_get (lastPointsUpdate g) userId of
           None \<Rightarrow> record_now
         | Some lastUpdate \<Rightarrow>
             if lastUpdate = 0 then record_now
             else
               (let timeSinceLastUpdate = now - lastUpdate
                in if timeSinceLastUpdate < minIntervalBetweenUpdates g
                   then (\<lparr>allowed = False,
                           retryAfter = Some (Math_ceil_div
                             (minIntervalBetweenUpdates g - timeSinceLastUpdate) 1000),
                           violationCount = None,
                           reason = Some ''Points cooldown active''\<rparr>, g)
                   else record_now))"

section \<open>Caching (\<open>utils/cache.js\<close>)\<close>

subsection \<open>Values, errors and \<open>JSON.stringify\<close>\<close>

text \<open>
  The cache stores any JavaScript value. The model has the primitive values: \<^verbatim>\<open>null\<close>,
  \<^verbatim>\<open>undefined\<close>, booleans, numbers that are safe integers, strings of code units below
  256, and BigInts.
\<close>

datatype jsval = JNull | JUndefined | JBool bool | JNum int | JStr string | JBigInt int

text \<open>\<open>Thrown msg\<close> is whatever a callback threw or rejected with.\<close>

datatype error = ReferenceError | TypeError | Thrown string

function decimal :: "nat \<Rightarrow> string" where
  "decimal n =
     (if n < 10 then [''0123456789'' ! n]
      else decimal (n div 10) @ [''0123456789'' ! (n mod 10)])"
  by pat_completeness auto
termination
  by (relation "measure id") auto

declare decimal.simps [simp del]

text \<open>
  \<^verbatim>\<open>JSON.stringify\<close> quotes a string and escapes the quote, the backslash and the
  control characters.
\<close>

definition json_escape :: "char \<Rightarrow> string" where
  "json_escape c =
     (let n = (of_char c :: nat)
      in if n = 0x22 then [CHR 0x5C, CHR 0x22]
         else if n = 0x5C then [CHR 0x5C, CHR 0x5C]
         else if n = 0x08 then [CHR 0x5C, CHR ''b'']
         else if n = 0x09 then [CHR 0x5C, CHR ''t'']
         else if n = 0x0A then [CHR 0x5C, CHR ''n'']
         else if n = 0x0C then [CHR 0x5C, CHR ''f'']
         else if n = 0x0D then [CHR 0x5C, CHR ''r'']
         else if n < 0x20
           then [CHR 0x5C, CHR ''u'', CHR ''0'', CHR ''0'',
                 ''0123456789abcdef'' ! (n div 16), ''0123456789abcdef'' ! (n mod 16)]
         else [c])"

text \<open>
  The result is \<open>Inr None\<close> where \<^verbatim>\<open>JSON.stringify\<close> returns \<^verbatim>\<open>undefined\<close>, and a
  \<^verbatim>\<open>TypeError\<close> for a BigInt.
\<close>

fun JSON_stringify :: "jsval \<Rightarrow> error + string option" where
  "JSON_stringify JNull = Inr (Some ''null'')"
| "JSON_stringify JUndefined = Inr None"
| "JSON_stringify (JBool b) = Inr (Some (if b then ''true'' else ''false''))"
| "JSON_stringify (JNum n) =
     Inr (Some (if n < 0 then CHR ''-'' # decimal (nat (- n)) else decimal (nat n)))"
| "JSON_stringify (JStr s) = Inr (Some ([CHR 0x22] @ concat (map json_escape s) @ [CHR 0x22]))"
| "JSON_stringify (JBigInt n) = Inl TypeError"

subsection \<open>CacheEntry\<close>

record CacheEntry =
  entryValue :: jsval
  createdAt :: int
  ttl :: int
  hits :: nat
  lastAccessed :: int

definition new_CacheEntry :: "jsval \<Rightarrow> int \<Rightarrow> int \<Rightarrow> CacheEntry" where
  "new_CacheEntry v ttl_ms now =
     \<lparr>entryValue = v, createdAt = now, ttl = ttl_ms, hits = 0, lastAccessed = now\<rparr>"

definition isExpired :: "CacheEntry \<Rightarrow> int \<Rightarrow> bool" where
  "isExpired e now = (now - createdAt e > ttl e)"

definition recordHit :: "CacheEntry \<Rightarrow> int \<Rightarrow> CacheEntry" where
  "recordHit e now = e\<lparr>hits := hits e + 1, lastAccessed := now\<rparr>"

text \<open>
  \<^verbatim>\<open>CacheEntry.getStats()\<close> builds \<^verbatim>\<open>{ createdAt: this.createdAt, lastAccessed:
  this.lastAccessed, hits, age: ..., ttl: this.ttl }\<close>. The shorthand property \<^verbatim>\<open>hits\<close>
  reads the identifier \<^verbatim>\<open>hits\<close>, not \<^verbatim>\<open>this.hits\<close>. The method has no parameter and
  no local of that name and the module declares none, so the identifier resolves to a
  property of the global object, and reading it throws a \<^verbatim>\<open>ReferenceError\<close> when
  there is no such property.
\<close>

definition resolve_global :: "(string, jsval) jsmap \<Rightarrow> string \<Rightarrow> error + jsval" where
  "resolve_global globalObject name =
     (case Map_get globalObject name of None \<Rightarrow> Inl ReferenceError | Some v \<Rightarrow> Inr v)"

record EntryStats =
  stats_createdAt :: int
  stats_lastAccessed :: int
  stats_hits :: jsval
  stats_age :: int
  stats_ttl :: int

definition CacheEntry_getStats ::
  "(string, jsval) jsmap \<Rightarrow> CacheEntry \<Rightarrow> int \<Rightarrow> error + EntryStats" where
  "CacheEntry_getStats globalObject e now =
     (case resolve_global globalObject ''hits'' of
        Inl err \<Rightarrow> Inl err
      | Inr h \<Rightarrow>
          Inr \<lparr>stats_createdAt = createdAt e, stats_lastAccessed = lastAccessed e,
               stats_hits = h, stats_age = now - createdAt e, stats_ttl = ttl e\<rparr>)"

subsection \<open>CacheManager\<close>

record Metrics =
  hits :: nat
  misses :: nat
  sets :: nat
  deletes :: nat

record CacheManager =
  store :: "(string, CacheEntry) jsmap"
  metrics :: Metrics

definition new_CacheManager :: CacheManager where
  "new_CacheManager = \<lparr>store = [], metrics = \<lparr>hits = 0, misses = 0, sets = 0, deletes = 0\<rparr>\<rparr>"

text \<open>
  \<^verbatim>\<open>set(key, value, ttl = 300000)\<close>; an omitted \<^verbatim>\<open>ttl\<close> is \<open>None\<close>. Logging has no
  effect on the cache and is left out, here and below.
\<close>

definition CacheManager_set ::
  "string \<Rightarrow> jsval \<Rightarrow> int option \<Rightarrow> int \<Rightarrow> CacheManager \<Rightarrow> CacheManager" where
  "CacheManager_set key v ttl_arg now c =
     (let ttl_ms = (case ttl_arg of None \<Rightarrow> 300000 | Some t \<Rightarrow> t)
      in c\<lparr>store := Map_set (store c) key (new_CacheEntry v ttl_ms now),
            metrics := (metrics c)\<lparr>sets := sets (metrics c) + 1\<rparr>\<rparr>)"

text \<open>
  \<^verbatim>\<open>get(key)\<close> returns \<^verbatim>\<open>null\<close> for an absent or expired key and the stored value
  otherwise. The entry is an object of the map; recording the hit on it is written back
  under its key.
\<close>

definition CacheManager_get :: "string \<Rightarrow> int \<Rightarrow> CacheManager \<Rightarrow> jsval \<times> CacheManager" where
  "CacheManager_get key now c =
     (case Map_get (store c) key of
        None \<Rightarrow> (JNull, c\<lparr>metrics := (metrics c)\<lparr>misses := misses (metrics c) + 1\<rparr>\<rparr>)
      | Some entry \<Rightarrow>
          if isExpired entry now
          then (JNull, c\<lparr>store := Map_delete (store c) key,
                         metrics := (metrics c)\<lparr>misses := misses (metrics c) + 1\<rparr>\<rparr>)
          else (entryValue entry,
                c\<lparr>store := Map_set (store c) key (recordHit entry now),
                  metrics := (metrics c)\<lparr>Metrics.hits := Metrics.hits (metrics c) + 1\<rparr>\<rparr>))"

text \<open>
  \<^verbatim>\<open>async getOrSet(key, fetchFn, ttl = 300000)\<close>. The callback belongs to the caller: it
  runs against the caller's world \<open>'w\<close> (a database, a counter of a mock) and either
  yields a value or fails. The lookup reads the clock at \<open>now_get\<close>; the value is stored
  once the callback has settled, at \<open>now_set\<close>. Calls are modelled one after the other:
  each call settles before the next starts.
\<close>

type_synonym 'w fetchFn = "'w \<Rightarrow> (error + jsval) \<times> 'w"

definition CacheManager_getOrSet ::
  "string \<Rightarrow> 'w fetchFn \<Rightarrow> int option \<Rightarrow> int \<Rightarrow> int \<Rightarrow> CacheManager \<times> 'w
     \<Rightarrow> (error + jsval) \<times> CacheManager \<times> 'w" where
  "CacheManager_getOrSet key fetch ttl_arg now_get now_set cw =
     (let (c, w) = cw;
          (cached, c1) = CacheManager_get key now_get c
      in if cached \<noteq> JNull then (Inr cached, c1, w)
         else (case fetch w of
                 (Inr v, w') \<Rightarrow> (Inr v, CacheManager_set key v ttl_arg now_set c1, w')
               | (Inl err, w') \<Rightarrow> (Inl err, c1, w')))"

text \<open>
  A callback wrapped so that the world carries the number of times it has been invoked,
  as a test double does.
\<close>

definition counted :: "'w fetchFn \<Rightarrow> (nat \<times> 'w) fetchFn" where
  "counted fetch = (\<lambda>(n, w). let (r, w') = fetch w in (r, (Suc n, w')))"

text \<open>Two callbacks that ignore the world: one resolves to a value, one rejects.\<close>

definition returning :: "jsval \<Rightarrow> 'w fetchFn" where
  "returning v = (\<lambda>w. (Inr v, w))"

definition throwing :: "string \<Rightarrow> 'w fetchFn" where
  "throwing msg = (\<lambda>w. (Inl (Thrown msg), w))"

text \<open>
  Successive \<^verbatim>\<open>getOrSet\<close> calls for one key with one callback; each call has its own
  two clock readings.
\<close>

fun getOrSet_calls ::
  "string \<Rightarrow> 'w fetchFn \<Rightarrow> int option \<Rightarrow> (int \<times> int) list \<Rightarrow> CacheManager \<times> 'w
     \<Rightarrow> (error + jsval) list \<times> CacheManager \<times> 'w" where
  "getOrSet_calls key fetch ttl_arg [] cw = ([], cw)"
| "getOrSet_calls key fetch ttl_arg ((now_get, now_set) # later) cw =
     (let (r, cw') = CacheManager_getOrSet key fetch ttl_arg now_get now_set cw;
          (rs, cw'') = getOrSet_calls key fetch ttl_arg later cw'
      in (r # rs, cw''))"

definition CacheManager_delete :: "string \<Rightarrow> CacheManager \<Rightarrow> bool \<times> CacheManager" where
  "CacheManager_delete key c =
     (let hadEntry = Map_has (store c) key;
          c1 = c\<lparr>store := Map_delete (store c) key\<rparr>
      in (hadEntry,
          if hadEntry
          then c1\<lparr>metrics := (metrics c1)\<lparr>deletes := deletes (metrics c1) + 1\<rparr>\<rparr>
          else c1))"

text \<open>
  \<^verbatim>\<open>estimateMemoryUsage()\<close> adds twice the length of each stored value's JSON text.
  Reading \<^verbatim>\<open>.length\<close> of \<^verbatim>\<open>undefined\<close> throws a \<^verbatim>\<open>TypeError\<close>. The method has no
  \<^verbatim>\<open>try\<close>, so the first error ends the loop and leaves the method.
\<close>

fun estimate_loop :: "CacheEntry list \<Rightarrow> nat \<Rightarrow> error + nat" where
  "estimate_loop [] bytes = Inr bytes"
| "estimate_loop (entry # rest) bytes =
     (case JSON_stringify (entryValue entry) of
        Inl err \<Rightarrow> Inl err
      | Inr None \<Rightarrow> Inl TypeError
      | Inr (Some text) \<Rightarrow> estimate_loop rest (bytes + length text * 2))"

text \<open>
  \<^verbatim>\<open>(bytes / 1024).toFixed(2)\<close>: the quotient is exact in binary, and \<^verbatim>\<open>toFixed\<close>
  rounds it to hundredths, a tie going up.
\<close>

definition kilobytes_toFixed2 :: "nat \<Rightarrow> string" where
  "kilobytes_toFixed2 bytes =
     (let h = (bytes * 100 + 512) div 1024
      in decimal (h div 100) @ ''.'' @
         [''0123456789'' ! (h mod 100 div 10), ''0123456789'' ! (h mod 10)])"

definition CacheManager_estimateMemoryUsage :: "CacheManager \<Rightarrow> error + string" where
  "CacheManager_estimateMemoryUsage c =
     (case estimate_loop (map snd (store c)) 0 of
        Inl err \<Rightarrow> Inl err
      | Inr bytes \<Rightarrow> Inr (kilobytes_toFixed2 bytes @ '' KB''))"

text \<open>
  \<^verbatim>\<open>getStats()\<close>. The hit rate is kept as the exact percentage; its rendering as text
  with two decimals goes through floating point and is not modelled.
\<close>

record CacheStats =
  stats_metrics :: Metrics
  hitRate :: rat
  entriesStored :: nat
  estimatedMemory :: string

definition CacheManager_getStats :: "CacheManager \<Rightarrow> error + CacheStats" where
  "CacheManager_getStats c =
     (let m = metrics c;
          rate = (if Metrics.hits m + misses m > 0
                  then Fract (int (Metrics.hits m)) (int (Metrics.hits m + misses m)) * 100
                  else 0)
      in case CacheManager_estimateMemoryUsage c of
           Inl err \<Rightarrow> Inl err
         | Inr mem \<Rightarrow>
             Inr \<lparr>stats_metrics = m, hitRate = rate, entriesStored = Map_size (store c),
                  estimatedMemory = mem\<rparr>)"

subsection \<open>Notions used to state the properties of the cache\<close>

text \<open>The value held under a key, \<^verbatim>\<open>null\<close> when the key has no entry.\<close>

definition storedValue :: "CacheManager \<Rightarrow> string \<Rightarrow> jsval" where
  "storedValue c key =
     (case Map_get (store c) key of None \<Rightarrow> JNull | Some entry \<Rightarrow> entryValue entry)"

text \<open>A value serializes when \<^verbatim>\<open>JSON.stringify\<close> returns a string for it.\<close>

definition serializes :: "jsval \<Rightarrow> bool" where
  "serializes v = (case JSON_stringify v of Inr (Some text) \<Rightarrow> True | _ \<Rightarrow> False)"

definition json_length :: "jsval \<Rightarrow> nat" where
  "json_length v = (case JSON_stringify v of Inr (Some text) \<Rightarrow> length text | _ \<Rightarrow> 0)"

section \<open>Facts about the runtime model\<close>

lemma Math_ceil_div_code [code]: "Math_ceil_div a b = - ((- a) div b)"
  unfolding Math_ceil_div_def by (rule ceiling_divide_eq_div)

lemma Math_ceil_div_pos:
  assumes "0 < a" and "0 < b"
  shows "0 < Math_ceil_div a b"
proof -
  have "0 < real_of_int a / real_of_int b"
    using assms by simp
  then show ?thesis
    unfolding Math_ceil_div_def by simp
qed

lemma Map_get_set_same [simp]: "Map_get (Map_set m k v) k = Some v"
  by (induction m) auto

lemma Map_get_set_other [simp]: "k' \<noteq> k \<Longrightarrow> Map_get (Map_set m k v) k' = Map_get m k'"
  by (induction m) auto

lemma Map_get_delete_same [simp]: "Map_get (Map_delete m k) k = None"
  by (induction m) auto

lemma Map_get_delete_other [simp]:
  "k' \<noteq> k \<Longrightarrow> Map_get (Map_delete m k) k' = Map_get m k'"
  by (induction m) auto

lemma Map_delete_absent [simp]: "Map_get m k = None \<Longrightarrow> Map_delete m k = m"
  by (induction m) (auto split: if_splits)

section \<open>Command cooldowns escalate with the denied attempts\<close>

lemma checkCooldown_first:
  assumes "cooldownRecord mgr u cmd = None"
  shows "fst (checkCooldown u cmd (Some base) t mgr) =
           \<lparr>allowed = True, retryAfter = None, violationCount = None, reason = None\<rparr>
       \<and> cooldownRecord (snd (checkCooldown u cmd (Some base) t mgr)) u cmd =
           Some \<lparr>expiresAt = t + base, violations = 0\<rparr>
       \<and> baseEscalation (snd (checkCooldown u cmd (Some base) t mgr)) = baseEscalation mgr"
  using assms
  by (auto simp: checkCooldown_def cooldownRecord_def Map_has_def Let_def
      split: option.splits)

lemma checkCooldown_denied:
  assumes "cooldownRecord mgr u cmd = Some d" and "t < expiresAt d"
  shows "fst (checkCooldown u cmd cd t mgr) =
           \<lparr>allowed = False, retryAfter = Some (Math_ceil_div (expiresAt d - t) 1000),
            violationCount = Some (violations d + 1), reason = None\<rparr>
       \<and> cooldownRecord (snd (checkCooldown u cmd cd t mgr)) u cmd =
           Some (d\<lparr>violations := violations d + 1\<rparr>)
       \<and> baseEscalation (snd (checkCooldown u cmd cd t mgr)) = baseEscalation mgr"
  using assms
  by (auto simp: checkCooldown_def cooldownRecord_def Map_has_def Let_def
      split: option.splits)

lemma checkCooldown_elapsed:
  assumes "cooldownRecord mgr u cmd = Some d" and "expiresAt d \<le> t"
  shows "fst (checkCooldown u cmd (Some base) t mgr) =
           \<lparr>allowed = True, retryAfter = None, violationCount = None, reason = None\<rparr>
       \<and> cooldownRecord (snd (checkCooldown u cmd (Some base) t mgr)) u cmd =
           Some \<lparr>expiresAt = t + (base + int (violations d) * baseEscalation mgr),
                 violations = 0\<rparr>"
  using assms
  by (auto simp: checkCooldown_def cooldownRecord_def Map_has_def Let_def
      split: option.splits)

lemma map_enumerate_Suc:
  "map f (enumerate (Suc n) xs) = map (\<lambda>a. f (Suc (fst a), snd a)) (enumerate n xs)"
  by (simp add: enumerate_Suc_eq apfst_def map_prod_def case_prod_beta)

lemma checkCooldown_calls_denied:
  assumes "cooldownRecord mgr u cmd = Some d" and "\<forall>t \<in> set ts. t < expiresAt d"
  shows "fst (checkCooldown_calls u cmd cd ts mgr) =
           map (\<lambda>(i, t). \<lparr>allowed = False,
                           retryAfter = Some (Math_ceil_div (expiresAt d - t) 1000),
                           violationCount = Some (violations d + 1 + i), reason = None\<rparr>)
               (enumerate 0 ts)
       \<and> cooldownRecord (snd (checkCooldown_calls u cmd cd ts mgr)) u cmd =
           Some (d\<lparr>violations := violations d + length ts\<rparr>)
       \<and> baseEscalation (snd (checkCooldown_calls u cmd cd ts mgr)) = baseEscalation mgr"
  using assms
proof (induction ts arbitrary: mgr d)
  case Nil
  then show ?case by simp
next
  case (Cons t ts)
  let ?step = "checkCooldown u cmd cd t mgr"
  let ?d' = "d\<lparr>violations := violations d + 1\<rparr>"
  have t: "t < expiresAt d" using Cons.prems by simp
  note one = checkCooldown_denied [OF Cons.prems(1) t, of cd]
  have rec': "cooldownRecord (snd ?step) u cmd = Some ?d'" using one by simp
  have later: "\<forall>t \<in> set ts. t < expiresAt ?d'" using Cons.prems by simp
  note rest = Cons.IH [OF rec' later]
  show ?case
    using one rest
    by (simp add: case_prod_beta Let_def map_enumerate_Suc)
qed

text \<open>
  Claim C2. With a base cooldown \<open>base\<close> (5000 in the claim) and the escalation step of
  the manager (1000 as constructed), the first check of a (user, command) pair is allowed
  and installs \<open>expiresAt = t0 + base\<close> with no violations. Every check before the
  expiry is denied, reports \<open>retryAfter = ceil((expiresAt - now) / 1000)\<close> and counts
  one more violation on the existing record: the first of them reports 1. The first check
  at or after the expiry is allowed and installs a cooldown of the base plus one step per
  violation counted before, with the count back at 0. One denied check gives 6000. The
  record that carries the count is the one the checks left, not yet swept.
\<close>

theorem checkCooldown_escalation:
  assumes "cooldownRecord mgr userId commandName = None"
      and "\<forall>t \<in> set denied_times. t < t0 + base"
      and "t0 + base \<le> t2"
  shows "let (r0, m0) = checkCooldown userId commandName (Some base) t0 mgr;
             (rs, m1) = checkCooldown_calls userId commandName (Some base) denied_times m0;
             (r2, m2) = checkCooldown userId commandName (Some base) t2 m1
         in r0 = \<lparr>allowed = True, retryAfter = None, violationCount = None, reason = None\<rparr>
          \<and> cooldownRecord m0 userId commandName =
              Some \<lparr>expiresAt = t0 + base, violations = 0\<rparr>
          \<and> rs = map (\<lambda>(i, t). \<lparr>allowed = False,
                          retryAfter = Some (Math_ceil_div (t0 + base - t) 1000),
                          violationCount = Some (i + 1), reason = None\<rparr>)
                      (enumerate 0 denied_times)
          \<and> cooldownRecord m1 userId commandName =
              Some \<lparr>expiresAt = t0 + base, violations = length denied_times\<rparr>
          \<and> r2 = \<lparr>allowed = True, retryAfter = None, violationCount = None, reason = None\<rparr>
          \<and> cooldownRecord m2 userId commandName =
              Some \<lparr>expiresAt = t2 + (base + int (length denied_times) * baseEscalation mgr),
                    violations = 0\<rparr>"
proof -
  let ?c0 = "checkCooldown userId commandName (Some base) t0 mgr"
  let ?d0 = "\<lparr>expiresAt = t0 + base, violations = 0\<rparr>"
  let ?c1 = "checkCooldown_calls userId commandName (Some base) denied_times (snd ?c0)"
  let ?d1 = "\<lparr>expiresAt = t0 + base, violations = length denied_times\<rparr>"
  let ?c2 = "checkCooldown userId commandName (Some base) t2 (snd ?c1)"
  note s0 = checkCooldown_first [OF assms(1), of base t0]
  have rec0: "cooldownRecord (snd ?c0) userId commandName = Some ?d0"
    using s0 by simp
  have den: "\<forall>t \<in> set denied_times. t < expiresAt ?d0"
    using assms(2) by simp
  note s1 = checkCooldown_calls_denied [OF rec0 den, of "Some base"]
  have rec1: "cooldownRecord (snd ?c1) userId commandName = Some ?d1"
    using s1 by simp
  have el: "expiresAt ?d1 \<le> t2" using assms(3) by simp
  note s2 = checkCooldown_elapsed [OF rec1 el, of base]
  have esc: "baseEscalation (snd ?c1) = baseEscalation mgr"
    using s0 s1 by simp
  show ?thesis
    using s0 s1 s2 esc by (simp add: case_prod_beta)
qed

text \<open>
  The scenario of the claim on a fresh manager: allowed at 1000000, denied at 1002500 with
  3 seconds to wait and one violation, allowed at 1005000 with a cooldown of 6000.
\<close>

theorem checkCooldown_escalation_witness:
  "let (r0, m0) = checkCooldown ''user-1'' ''leaderboard'' (Some 5000) 1000000
                    new_CommandCooldownManager;
       (rs, m1) = checkCooldown_calls ''user-1'' ''leaderboard'' (Some 5000) [1002500] m0;
       (r2, m2) = checkCooldown ''user-1'' ''leaderboard'' (Some 5000) 1005000 m1
   in allowed r0
    \<and> cooldownRecord m0 ''user-1'' ''leaderboard'' = Some \<lparr>expiresAt = 1005000, violations = 0\<rparr>
    \<and> rs = [\<lparr>allowed = False, retryAfter = Some 3, violationCount = Some 1, reason = None\<rparr>]
    \<and> cooldownRecord m1 ''user-1'' ''leaderboard'' = Some \<lparr>expiresAt = 1005000, violations = 1\<rparr>
    \<and> allowed r2
    \<and> cooldownRecord m2 ''user-1'' ''leaderboard'' = Some \<lparr>expiresAt = 1011000, violations = 0\<rparr>"
proof -
  have fresh: "cooldownRecord new_CommandCooldownManager ''user-1'' ''leaderboard'' = None"
    by (simp add: cooldownRecord_def new_CommandCooldownManager_def)
  have early: "\<forall>t \<in> set [1002500::int]. t < 1000000 + 5000" by simp
  have late: "(1000000::int) + 5000 \<le> 1005000" by simp
  have step: "baseEscalation new_CommandCooldownManager = 1000"
    by (simp add: new_CommandCooldownManager_def)
  have ceil: "Math_ceil_div 2500 1000 = 3"
    by (simp add: Math_ceil_div_code)
  show ?thesis
    using checkCooldown_escalation [OF fresh early late] step ceil
    by (simp add: case_prod_beta Let_def enumerate_eq_zip)
qed

section \<open>The spam window admits as many messages as the threshold\<close>

lemma checkSpam_step:
  "isSpamming (fst (checkSpam u now mgr)) =
     (messageThreshold (thresholds mgr)
        \<le> length (filter (\<lambda>ts. now - ts < timeWindow (thresholds mgr)) (historyOf mgr u)))
   \<and> historyOf (snd (checkSpam u now mgr)) u =
     (if messageThreshold (thresholds mgr)
           \<le> length (filter (\<lambda>ts. now - ts < timeWindow (thresholds mgr)) (historyOf mgr u))
      then historyOf mgr u
      else filter (\<lambda>ts. now - ts < timeWindow (thresholds mgr)) (historyOf mgr u) @ [now])
   \<and> thresholds (snd (checkSpam u now mgr)) = thresholds mgr"
  by (auto simp: checkSpam_def historyOf_def Map_has_def Let_def split: option.splits)

lemma checkSpam_admit:
  assumes "historyOf mgr u = h"
      and "\<forall>ts \<in> set h. now - ts < timeWindow (thresholds mgr)"
      and "length h < messageThreshold (thresholds mgr)"
  shows "\<not> isSpamming (fst (checkSpam u now mgr))
       \<and> historyOf (snd (checkSpam u now mgr)) u = h @ [now]
       \<and> thresholds (snd (checkSpam u now mgr)) = thresholds mgr"
proof -
  have "filter (\<lambda>ts. now - ts < timeWindow (thresholds mgr)) h = h"
    using assms(2) by simp
  then show ?thesis
    using assms(1,3) checkSpam_step [of u now mgr] by simp
qed

lemma checkSpam_flag:
  assumes "historyOf mgr u = h"
      and "\<forall>ts \<in> set h. now - ts < timeWindow (thresholds mgr)"
      and "messageThreshold (thresholds mgr) \<le> length h"
  shows "isSpamming (fst (checkSpam u now mgr))
       \<and> historyOf (snd (checkSpam u now mgr)) u = h
       \<and> thresholds (snd (checkSpam u now mgr)) = thresholds mgr"
proof -
  have "filter (\<lambda>ts. now - ts < timeWindow (thresholds mgr)) h = h"
    using assms(2) by simp
  then show ?thesis
    using assms(1,3) checkSpam_step [of u now mgr] by simp
qed

lemma checkSpam_past_window:
  assumes "historyOf mgr u = h"
      and "\<forall>ts \<in> set h. timeWindow (thresholds mgr) \<le> now - ts"
      and "0 < messageThreshold (thresholds mgr)"
  shows "\<not> isSpamming (fst (checkSpam u now mgr))
       \<and> historyOf (snd (checkSpam u now mgr)) u = [now]"
proof -
  have "filter (\<lambda>ts. now - ts < timeWindow (thresholds mgr)) h = []"
    using assms(2) by (simp add: filter_empty_conv not_less)
  then show ?thesis
    using assms(1,3) checkSpam_step [of u now mgr] by simp
qed

lemma checkSpam_calls_Cons:
  "checkSpam_calls u (now # later) mgr =
     (fst (checkSpam u now mgr) # fst (checkSpam_calls u later (snd (checkSpam u now mgr))),
      snd (checkSpam_calls u later (snd (checkSpam u now mgr))))"
  by (simp add: case_prod_beta Let_def)

text \<open>
  Claim C1 asks for the fifth of five quick checks to be flagged. The count is compared
  with the threshold before the current timestamp is appended, so the fifth check sees
  four timestamps and is admitted: on a fresh manager, five checks within five
  milliseconds all return \<open>isSpamming = false\<close>.
\<close>

theorem checkSpam_fifth_call_counterexample:
  "map isSpamming
     (fst (checkSpam_calls ''user-1'' [1000, 1001, 1002, 1003, 1004] new_AntiSpamManager))
   = [False, False, False, False, False]"
  by code_simp


text \<open>
  Claim C1, amended. With threshold 5 and window 5000 ms, for a user with no history, six
  checks in quick succession (each within the window of every admitted one) return
  \<open>isSpamming = false\<close> for the first five and \<open>true\<close> for the sixth; the flagged
  check's timestamp is not appended, so the history still holds the five admitted
  timestamps. A check at least a window after all of them returns \<open>false\<close>.
\<close>

theorem checkSpam_window:
  assumes "historyOf mgr userId = []"
      and "messageThreshold (thresholds mgr) = 5"
      and "timeWindow (thresholds mgr) = 5000"
      and "\<forall>a \<in> set [t1, t2, t3, t4, t5]. \<forall>b \<in> set [t1, t2, t3, t4, t5, t6]. b - a < 5000"
      and "\<forall>a \<in> set [t1, t2, t3, t4, t5]. 5000 \<le> t7 - a"
  shows "map isSpamming
           (fst (checkSpam_calls userId [t1, t2, t3, t4, t5, t6, t7] mgr))
         = [False, False, False, False, False, True, False]
       \<and> historyOf (snd (checkSpam_calls userId [t1, t2, t3, t4, t5, t6] mgr)) userId
         = [t1, t2, t3, t4, t5]"
proof -
  let ?m1 = "snd (checkSpam userId t1 mgr)"
  let ?m2 = "snd (checkSpam userId t2 ?m1)"
  let ?m3 = "snd (checkSpam userId t3 ?m2)"
  let ?m4 = "snd (checkSpam userId t4 ?m3)"
  let ?m5 = "snd (checkSpam userId t5 ?m4)"
  let ?m6 = "snd (checkSpam userId t6 ?m5)"
  have q2: "\<forall>ts \<in> set [t1]. t2 - ts < 5000"
   and q3: "\<forall>ts \<in> set [t1, t2]. t3 - ts < 5000"
   and q4: "\<forall>ts \<in> set [t1, t2, t3]. t4 - ts < 5000"
   and q5: "\<forall>ts \<in> set [t1, t2, t3, t4]. t5 - ts < 5000"
   and q6: "\<forall>ts \<in> set [t1, t2, t3, t4, t5]. t6 - ts < 5000"
    using assms(4) by simp_all
  have s1: "\<not> isSpamming (fst (checkSpam userId t1 mgr))
          \<and> historyOf ?m1 userId = [] @ [t1] \<and> thresholds ?m1 = thresholds mgr"
    by (rule checkSpam_admit [OF assms(1)]) (simp_all add: assms(2))
  have s2: "\<not> isSpamming (fst (checkSpam userId t2 ?m1))
          \<and> historyOf ?m2 userId = [t1] @ [t2] \<and> thresholds ?m2 = thresholds ?m1"
    by (rule checkSpam_admit) (use s1 q2 assms(2,3) in simp_all)
  have s3: "\<not> isSpamming (fst (checkSpam userId t3 ?m2))
          \<and> historyOf ?m3 userId = [t1, t2] @ [t3] \<and> thresholds ?m3 = thresholds ?m2"
    by (rule checkSpam_admit) (use s1 s2 q3 assms(2,3) in simp_all)
  have s4: "\<not> isSpamming (fst (checkSpam userId t4 ?m3))
          \<and> historyOf ?m4 userId = [t1, t2, t3] @ [t4] \<and> thresholds ?m4 = thresholds ?m3"
    by (rule checkSpam_admit) (use s1 s2 s3 q4 assms(2,3) in simp_all)
  have s5: "\<not> isSpamming (fst (checkSpam userId t5 ?m4))
          \<and> historyOf ?m5 userId = [t1, t2, t3, t4] @ [t5] \<and> thresholds ?m5 = thresholds ?m4"
    by (rule checkSpam_admit) (use s1 s2 s3 s4 q5 assms(2,3) in simp_all)
  have s6: "isSpamming (fst (checkSpam userId t6 ?m5))
          \<and> historyOf ?m6 userId = [t1, t2, t3, t4, t5] \<and> thresholds ?m6 = thresholds ?m5"
    by (rule checkSpam_flag) (use s1 s2 s3 s4 s5 q6 assms(2,3) in simp_all)
  have s7: "\<not> isSpamming (fst (checkSpam userId t7 ?m6))
          \<and> historyOf (snd (checkSpam userId t7 ?m6)) userId = [t7]"
    by (rule checkSpam_past_window [where h = "[t1, t2, t3, t4, t5]"])
       (use s1 s2 s3 s4 s5 s6 assms(2,3,5) in simp_all)
  show ?thesis
    using s1 s2 s3 s4 s5 s6 s7
    by (simp add: checkSpam_calls_Cons del: checkSpam_calls.simps(2))
qed

text \<open>Six checks one millisecond apart on a fresh manager, and one five seconds later.\<close>

theorem checkSpam_window_witness:
  "map isSpamming
     (fst (checkSpam_calls ''user-1'' [1000, 1001, 1002, 1003, 1004, 1005, 6004]
             new_AntiSpamManager))
   = [False, False, False, False, False, True, False]
   \<and> historyOf (snd (checkSpam_calls ''user-1'' [1000, 1001, 1002, 1003, 1004, 1005]
                       new_AntiSpamManager)) ''user-1''
     = [1000, 1001, 1002, 1003, 1004]"
proof -
  have fresh: "historyOf new_AntiSpamManager ''user-1'' = []"
    by (simp add: historyOf_def new_AntiSpamManager_def)
  have thr: "messageThreshold (thresholds new_AntiSpamManager) = 5"
    and win: "timeWindow (thresholds new_AntiSpamManager) = 5000"
    by (simp_all add: new_AntiSpamManager_def)
  have quick: "\<forall>a \<in> set [1000, 1001, 1002, 1003, 1004 :: int].
                 \<forall>b \<in> set [1000, 1001, 1002, 1003, 1004, 1005]. b - a < 5000"
    by simp
  have late: "\<forall>a \<in> set [1000, 1001, 1002, 1003, 1004 :: int]. 5000 \<le> 6004 - a"
    by simp
  show ?thesis
    by (rule checkSpam_window [OF fresh thr win quick late])
qed


section \<open>The minimum interval between points updates\<close>

lemma canPerformAction_first:
  assumes "Map_get (lastPointsUpdate g) u = None"
  shows "canPerformAction u now g =
           (\<lparr>allowed = True, retryAfter = None, violationCount = None, reason = None\<rparr>,
            g\<lparr>lastPointsUpdate := Map_set (lastPointsUpdate g) u now\<rparr>)"
  using assms by (simp add: canPerformAction_def)

lemma canPerformAction_recorded:
  assumes "Map_get (lastPointsUpdate g) u = Some lastAction" and "lastAction \<noteq> 0"
  shows "canPerformAction u now g =
           (if now - lastAction < minIntervalBetweenUpdates g
            then (\<lparr>allowed = False,
                    retryAfter = Some (Math_ceil_div
                      (minIntervalBetweenUpdates g - (now - lastAction)) 1000),
                    violationCount = None, reason = Some ''Points cooldown active''\<rparr>, g)
            else (\<lparr>allowed = True, retryAfter = None, violationCount = None, reason = None\<rparr>,
                  g\<lparr>lastPointsUpdate := Map_set (lastPointsUpdate g) u now\<rparr>))"
  using assms by (simp add: canPerformAction_def Let_def)

text \<open>
  Claim C7. For a user without a record, the first call at \<open>t0\<close> is allowed and records
  \<open>t0\<close>. A later call at \<open>t1\<close> with \<open>t1 - t0 < 30000\<close> is denied with
  \<open>retryAfter = ceil((30000 - (t1 - t0)) / 1000)\<close>, which is positive, and leaves the
  guard as it was. A call at \<open>t2\<close> with \<open>t2 - t0 \<ge> 30000\<close> is allowed and overwrites
  the record with \<open>t2\<close>. The recorded reading \<open>t0\<close> is a reading of \<^verbatim>\<open>Date.now()\<close>,
  which is not 0 on a running system.
\<close>

theorem canPerformAction_min_interval:
  assumes "Map_get (lastPointsUpdate g) userId = None"
      and "minIntervalBetweenUpdates g = 30000"
      and "t0 \<noteq> 0"
      and "t1 - t0 < 30000"
      and "30000 \<le> t2 - t0"
  shows "let (r0, g0) = canPerformAction userId t0 g;
             (r1, g1) = canPerformAction userId t1 g0;
             (r2, g2) = canPerformAction userId t2 g1
         in allowed r0 \<and> Map_get (lastPointsUpdate g0) userId = Some t0
          \<and> r1 = \<lparr>allowed = False,
                   retryAfter = Some (Math_ceil_div (30000 - (t1 - t0)) 1000),
                   violationCount = None, reason = Some ''Points cooldown active''\<rparr>
          \<and> 0 < Math_ceil_div (30000 - (t1 - t0)) 1000
          \<and> g1 = g0
          \<and> allowed r2 \<and> Map_get (lastPointsUpdate g2) userId = Some t2"
proof -
  let ?g0 = "g\<lparr>lastPointsUpdate := Map_set (lastPointsUpdate g) userId t0\<rparr>"
  have c0: "canPerformAction userId t0 g =
              (\<lparr>allowed = True, retryAfter = None, violationCount = None, reason = None\<rparr>, ?g0)"
    by (rule canPerformAction_first [OF assms(1)])
  have rec0: "Map_get (lastPointsUpdate ?g0) userId = Some t0"
    by simp
  have c1: "canPerformAction userId t1 ?g0 =
              (\<lparr>allowed = False,
                retryAfter = Some (Math_ceil_div (30000 - (t1 - t0)) 1000),
                violationCount = None, reason = Some ''Points cooldown active''\<rparr>, ?g0)"
    using canPerformAction_recorded [OF rec0 assms(3), of t1] assms(2,4) by simp
  have c2: "canPerformAction userId t2 ?g0 =
              (\<lparr>allowed = True, retryAfter = None, violationCount = None, reason = None\<rparr>,
               ?g0\<lparr>lastPointsUpdate := Map_set (lastPointsUpdate ?g0) userId t2\<rparr>)"
    using canPerformAction_recorded [OF rec0 assms(3), of t2] assms(2,5) by simp
  have pos: "0 < Math_ceil_div (30000 - (t1 - t0)) 1000"
    by (rule Math_ceil_div_pos) (use assms(4) in simp_all)
  show ?thesis
    using pos by (simp add: c0 c1 c2)
qed

text \<open>
  On a fresh guard: allowed at 1000000, denied half a second later with 30 seconds to
  wait, allowed at 1030001.
\<close>

theorem canPerformAction_min_interval_witness:
  "let (r0, g0) = canPerformAction ''user-1'' 1000000 new_LeaderboardFarmingPrevention;
       (r1, g1) = canPerformAction ''user-1'' 1000500 g0;
       (r2, g2) = canPerformAction ''user-1'' 1030001 g1
   in allowed r0 \<and> Map_get (lastPointsUpdate g0) ''user-1'' = Some 1000000
    \<and> r1 = \<lparr>allowed = False, retryAfter = Some 30,
             violationCount = None, reason = Some ''Points cooldown active''\<rparr>
    \<and> g1 = g0
    \<and> allowed r2 \<and> Map_get (lastPointsUpdate g2) ''user-1'' = Some 1030001"
proof -
  have fresh: "Map_get (lastPointsUpdate new_LeaderboardFarmingPrevention) ''user-1'' = None"
    by (simp add: new_LeaderboardFarmingPrevention_def)
  have iv: "minIntervalBetweenUpdates new_LeaderboardFarmingPrevention = 30000"
    by (simp add: new_LeaderboardFarmingPrevention_def)
  have nz: "(1000000::int) \<noteq> 0" by simp
  have early: "(1000500::int) - 1000000 < 30000" by simp
  have late: "(30000::int) \<le> 1030001 - 1000000" by simp
  have ceil: "Math_ceil_div 29500 1000 = 30"
    by (simp add: Math_ceil_div_code)
  show ?thesis
    using canPerformAction_min_interval [OF fresh iv nz early late] ceil
    by (auto simp: case_prod_beta Let_def)
qed

text \<open>
  The hypothesis on \<open>t0\<close> is needed: the source tests \<^verbatim>\<open>!lastUpdate\<close>, and a recorded
  reading of 0 (a clock at the epoch) is falsy, so the guard takes it for no record.
\<close>

lemma canPerformAction_zero_reading:
  "allowed (fst (canPerformAction ''user-1'' 1
            (snd (canPerformAction ''user-1'' 0 new_LeaderboardFarmingPrevention))))"
  by (simp add: canPerformAction_def new_LeaderboardFarmingPrevention_def)

lemma Map_delete_set_same [simp]: "Map_delete (Map_set m k v) k = Map_delete m k"
  by (induction m) auto

lemma Map_has_set_same [simp]: "Map_has (Map_set m k v) k"
  by (simp add: Map_has_def)

lemma Map_has_delete_same [simp]: "\<not> Map_has (Map_delete m k) k"
  by (simp add: Map_has_def)

section \<open>Expiry of a cache entry\<close>

lemma get_after_set_live:
  assumes "now' - now \<le> ttl_ms"
  shows "fst (CacheManager_get key now' (CacheManager_set key v (Some ttl_ms) now c)) = v"
  using assms
  by (simp add: CacheManager_get_def CacheManager_set_def isExpired_def new_CacheEntry_def)

lemma get_after_set_stale:
  assumes "ttl_ms < now' - now"
  shows "CacheManager_get key now' (CacheManager_set key v (Some ttl_ms) now c) =
           (JNull, c\<lparr>store := Map_delete (store c) key,
                     metrics := (metrics c)\<lparr>misses := misses (metrics c) + 1,
                                            sets := sets (metrics c) + 1\<rparr>\<rparr>)"
  using assms
  by (simp add: CacheManager_get_def CacheManager_set_def isExpired_def new_CacheEntry_def)

text \<open>
  Claim C3. For every \<open>ttl > 0\<close>, a \<^verbatim>\<open>get\<close> at the clock reading of the \<^verbatim>\<open>set\<close>
  returns the stored value; so does a \<^verbatim>\<open>get\<close> at any age up to \<open>ttl\<close> itself, the
  expiry test being a strict \<open>>\<close>. A \<^verbatim>\<open>get\<close> at a greater age, \<open>ttl + 1\<close> first of
  all, returns \<^verbatim>\<open>null\<close>, removes the entry and counts a miss.
\<close>

theorem cache_ttl_boundary:
  assumes "0 < ttl_ms"
  shows "fst (CacheManager_get key now (CacheManager_set key v (Some ttl_ms) now c)) = v
       \<and> (\<forall>age. age \<le> ttl_ms \<longrightarrow>
            fst (CacheManager_get key (now + age)
                   (CacheManager_set key v (Some ttl_ms) now c)) = v)
       \<and> (\<forall>age. ttl_ms < age \<longrightarrow>
            CacheManager_get key (now + age) (CacheManager_set key v (Some ttl_ms) now c) =
              (JNull, c\<lparr>store := Map_delete (store c) key,
                        metrics := (metrics c)\<lparr>misses := misses (metrics c) + 1,
                                               sets := sets (metrics c) + 1\<rparr>\<rparr>))"
proof (intro conjI allI impI)
  show "fst (CacheManager_get key now (CacheManager_set key v (Some ttl_ms) now c)) = v"
    by (rule get_after_set_live) (use assms in simp)
next
  fix age :: int
  assume "age \<le> ttl_ms"
  then show "fst (CacheManager_get key (now + age)
                   (CacheManager_set key v (Some ttl_ms) now c)) = v"
    by (intro get_after_set_live) simp
next
  fix age :: int
  assume "ttl_ms < age"
  then show "CacheManager_get key (now + age) (CacheManager_set key v (Some ttl_ms) now c) =
              (JNull, c\<lparr>store := Map_delete (store c) key,
                        metrics := (metrics c)\<lparr>misses := misses (metrics c) + 1,
                                               sets := sets (metrics c) + 1\<rparr>\<rparr>)"
    by (intro get_after_set_stale) simp
qed

text \<open>A value stored for 300 ms at 1000: read at 1000 and at 1300, gone at 1301.\<close>

theorem cache_ttl_boundary_witness:
  "fst (CacheManager_get ''k'' 1000 (CacheManager_set ''k'' (JStr ''v'') (Some 300) 1000
          new_CacheManager)) = JStr ''v''
   \<and> fst (CacheManager_get ''k'' 1300 (CacheManager_set ''k'' (JStr ''v'') (Some 300) 1000
          new_CacheManager)) = JStr ''v''
   \<and> CacheManager_get ''k'' 1301 (CacheManager_set ''k'' (JStr ''v'') (Some 300) 1000
          new_CacheManager)
       = (JNull, \<lparr>store = [], metrics = \<lparr>hits = 0, misses = 1, sets = 1, deletes = 0\<rparr>\<rparr>)"
proof -
  have pos: "(0::int) < 300" by simp
  note b = cache_ttl_boundary [OF pos, of "''k''" 1000 "JStr ''v''" new_CacheManager]
  have at_ttl: "fst (CacheManager_get ''k'' (1000 + 300)
                  (CacheManager_set ''k'' (JStr ''v'') (Some 300) 1000 new_CacheManager))
                = JStr ''v''"
    using b [THEN conjunct2, THEN conjunct1, rule_format, of 300] by simp
  have past: "CacheManager_get ''k'' (1000 + 301)
                (CacheManager_set ''k'' (JStr ''v'') (Some 300) 1000 new_CacheManager)
              = (JNull, new_CacheManager\<lparr>store := Map_delete (store new_CacheManager) ''k'',
                   metrics := (metrics new_CacheManager)
                     \<lparr>misses := misses (metrics new_CacheManager) + 1,
                      sets := sets (metrics new_CacheManager) + 1\<rparr>\<rparr>)"
    using b [THEN conjunct2, THEN conjunct2, rule_format, of 301] by simp
  show ?thesis
    using b [THEN conjunct1] at_ttl past by (simp add: new_CacheManager_def)
qed

section \<open>Deleting a key\<close>

text \<open>
  Claim C8. \<^verbatim>\<open>delete(key)\<close> returns whether the key had an entry; no path of it throws.
  It removes the entry and adds one to \<^verbatim>\<open>deletes\<close> exactly when there was one. On an
  absent key it returns \<^verbatim>\<open>false\<close> and changes nothing, so a second \<^verbatim>\<open>delete\<close>
  of the same key returns \<^verbatim>\<open>false\<close>.
\<close>

theorem delete_idempotent:
  "CacheManager_delete key c =
     (Map_has (store c) key,
      c\<lparr>store := Map_delete (store c) key,
        metrics := (metrics c)\<lparr>deletes := deletes (metrics c)
                                  + (if Map_has (store c) key then 1 else 0)\<rparr>\<rparr>)
   \<and> (\<not> Map_has (store c) key \<longrightarrow> CacheManager_delete key c = (False, c))
   \<and> \<not> Map_has (store (snd (CacheManager_delete key c))) key
   \<and> CacheManager_delete key (snd (CacheManager_delete key c))
       = (False, snd (CacheManager_delete key c))"
  by (simp add: CacheManager_delete_def Let_def Map_has_def)

text \<open>Deleting a stored key twice gives true, then false; deleting from an empty cache, false.\<close>

theorem delete_idempotent_witness:
  "(let c = CacheManager_set ''k'' (JNum 7) None 1000 new_CacheManager;
        (b1, c1) = CacheManager_delete ''k'' c;
        (b2, c2) = CacheManager_delete ''k'' c1
    in b1 \<and> \<not> b2 \<and> store c1 = [] \<and> deletes (metrics c1) = 1 \<and> c2 = c1)
   \<and> CacheManager_delete ''k'' new_CacheManager = (False, new_CacheManager)"
proof -
  let ?c = "CacheManager_set ''k'' (JNum 7) None 1000 new_CacheManager"
  have present: "Map_has (store ?c) ''k''"
    by (simp add: CacheManager_set_def)
  have absent: "\<not> Map_has (store new_CacheManager) ''k''"
    by (simp add: new_CacheManager_def Map_has_def)
  show ?thesis
    using delete_idempotent [of "''k''" ?c] delete_idempotent [of "''k''" new_CacheManager]
      present absent
    by (auto simp: case_prod_beta Let_def CacheManager_set_def new_CacheManager_def)
qed

section \<open>Statistics of one entry\<close>

text \<open>
  Claim C10. For every entry and every clock reading, \<^verbatim>\<open>CacheEntry.getStats()\<close> throws a
  \<^verbatim>\<open>ReferenceError\<close>: the method reads the bare identifier \<^verbatim>\<open>hits\<close>, which no scope
  of the module declares. The global object is the one of the running process, where
  nothing defines a property \<^verbatim>\<open>hits\<close>.
\<close>

theorem CacheEntry_getStats_throws:
  assumes "Map_get globalObject ''hits'' = None"
  shows "CacheEntry_getStats globalObject e now = Inl ReferenceError"
  using assms by (simp add: CacheEntry_getStats_def resolve_global_def)

text \<open>A fresh entry, no global of that name.\<close>

theorem CacheEntry_getStats_throws_witness:
  "CacheEntry_getStats [] (new_CacheEntry (JStr ''v'') 300000 1000) 1005 = Inl ReferenceError"
proof -
  have "Map_get ([] :: (string, jsval) jsmap) ''hits'' = None" by simp
  then show ?thesis by (rule CacheEntry_getStats_throws)
qed

section \<open>\<open>getOrSet\<close>: what a lookup leaves behind\<close>

lemma get_absent:
  assumes "Map_get (store c) key = None"
  shows "CacheManager_get key now c =
           (JNull, c\<lparr>metrics := (metrics c)\<lparr>misses := misses (metrics c) + 1\<rparr>\<rparr>)"
  using assms by (simp add: CacheManager_get_def)

lemma get_expired:
  assumes "Map_get (store c) key = Some entry" and "isExpired entry now"
  shows "CacheManager_get key now c =
           (JNull, c\<lparr>store := Map_delete (store c) key,
                     metrics := (metrics c)\<lparr>misses := misses (metrics c) + 1\<rparr>\<rparr>)"
  using assms by (simp add: CacheManager_get_def)

lemma get_live:
  assumes "Map_get (store c) key = Some entry" and "\<not> isExpired entry now"
  shows "CacheManager_get key now c =
           (entryValue entry,
            c\<lparr>store := Map_set (store c) key (recordHit entry now),
              metrics := (metrics c)\<lparr>Metrics.hits := Metrics.hits (metrics c) + 1\<rparr>\<rparr>)"
  using assms by (simp add: CacheManager_get_def)

lemma get_other_keys:
  "k \<noteq> key \<Longrightarrow> Map_get (store (snd (CacheManager_get key now c))) k = Map_get (store c) k"
  by (simp add: CacheManager_get_def split: option.splits)

lemma get_creates_nothing:
  "Map_has (store (snd (CacheManager_get key now c))) k \<Longrightarrow> Map_has (store c) k"
  by (cases "k = key") (auto simp: CacheManager_get_def Map_has_def split: option.splits if_splits)

lemma get_sets_unchanged:
  "sets (metrics (snd (CacheManager_get key now c))) = sets (metrics c)"
  by (simp add: CacheManager_get_def split: option.splits)

lemma get_null_storedValue:
  assumes "fst (CacheManager_get key now c) = JNull"
  shows "storedValue (snd (CacheManager_get key now c)) key = JNull"
  using assms
  by (auto simp: CacheManager_get_def storedValue_def recordHit_def
      split: option.splits if_splits)

lemma storedValue_null_get:
  assumes "storedValue c key = JNull"
  shows "fst (CacheManager_get key now c) = JNull"
  using assms
  by (auto simp: CacheManager_get_def storedValue_def split: option.splits)

lemma storedValue_set [simp]: "storedValue (CacheManager_set key v ttl_arg now c) key = v"
  by (simp add: CacheManager_set_def storedValue_def new_CacheEntry_def)

lemma getOrSet_hit:
  assumes "fst (CacheManager_get key now_get c) \<noteq> JNull"
  shows "CacheManager_getOrSet key fetch ttl_arg now_get now_set (c, w) =
           (Inr (fst (CacheManager_get key now_get c)), snd (CacheManager_get key now_get c), w)"
  using assms by (simp add: CacheManager_getOrSet_def case_prod_beta)

lemma getOrSet_miss_ok:
  assumes "fst (CacheManager_get key now_get c) = JNull" and "fetch w = (Inr v, w')"
  shows "CacheManager_getOrSet key fetch ttl_arg now_get now_set (c, w) =
           (Inr v, CacheManager_set key v ttl_arg now_set (snd (CacheManager_get key now_get c)),
            w')"
  using assms by (simp add: CacheManager_getOrSet_def case_prod_beta)

lemma getOrSet_miss_error:
  assumes "fst (CacheManager_get key now_get c) = JNull" and "fetch w = (Inl err, w')"
  shows "CacheManager_getOrSet key fetch ttl_arg now_get now_set (c, w) =
           (Inl err, snd (CacheManager_get key now_get c), w')"
  using assms by (simp add: CacheManager_getOrSet_def case_prod_beta)

lemma counted_apply:
  "fetch w = (r, w') \<Longrightarrow> counted fetch (n, w) = (r, (Suc n, w'))"
  by (simp add: counted_def)

section \<open>A failing callback caches nothing\<close>

text \<open>
  Claim C5 says that the store is unchanged when the callback fails. The lookup that
  precedes the callback is an ordinary \<^verbatim>\<open>get\<close>: it evicts an expired entry of the
  key. Here a daily question stored for 10 ms is looked up a second later with a callback
  that rejects; the error reaches the caller and the store, which held the stale entry,
  is empty afterwards.
\<close>

theorem getOrSet_failure_evicts_counterexample:
  "let c = CacheManager_set ''question:daily'' (JStr ''q1'') (Some 10) 1000 new_CacheManager;
       (r, c', w') = CacheManager_getOrSet ''question:daily''
                       (throwing ''database unavailable'') (Some 10) 2000 2001
                       (c, ())
   in r = Inl (Thrown ''database unavailable'') \<and> store c' \<noteq> store c \<and> store c' = []"
  by (simp add: CacheManager_getOrSet_def CacheManager_get_def CacheManager_set_def
      new_CacheManager_def new_CacheEntry_def isExpired_def throwing_def)

text \<open>
  Claim C5, amended. When the lookup misses and the callback fails, the failure reaches
  the caller and the call writes nothing: the cache is left exactly as the lookup
  \<^verbatim>\<open>get(key)\<close> left it. The key holds no value afterwards, no key gains an entry, the
  other keys keep theirs, \<^verbatim>\<open>sets\<close> does not move, and when the key had no entry the
  store is unchanged.
\<close>

theorem getOrSet_failure_not_cached:
  assumes "fst (CacheManager_get key now_get c) = JNull"
      and "fetch w = (Inl err, w')"
  shows "let (r, c', w'') = CacheManager_getOrSet key fetch ttl_arg now_get now_set (c, w)
         in r = Inl err \<and> w'' = w'
          \<and> c' = snd (CacheManager_get key now_get c)
          \<and> storedValue c' key = JNull
          \<and> (\<forall>k. Map_has (store c') k \<longrightarrow> Map_has (store c) k)
          \<and> (\<forall>k. k \<noteq> key \<longrightarrow> Map_get (store c') k = Map_get (store c) k)
          \<and> sets (metrics c') = sets (metrics c)
          \<and> (Map_get (store c) key = None \<longrightarrow> store c' = store c)"
proof -
  have absent: "Map_get (store c) key = None \<longrightarrow>
                  store (snd (CacheManager_get key now_get c)) = store c"
    by (simp add: get_absent)
  show ?thesis
    using absent get_null_storedValue [OF assms(1)]
    by (simp add: getOrSet_miss_error [where fetch = fetch, OF assms] get_other_keys
        get_sets_unchanged get_creates_nothing)
qed

text \<open>A rejecting callback on an empty cache.\<close>

theorem getOrSet_failure_not_cached_witness:
  "let (r, c', w'') = CacheManager_getOrSet ''leaderboard:top10''
                        (throwing ''database unavailable'') None 1000 1001
                        (new_CacheManager, ())
   in r = Inl (Thrown ''database unavailable'') \<and> store c' = store new_CacheManager
    \<and> storedValue c' ''leaderboard:top10'' = JNull"
proof -
  have miss: "fst (CacheManager_get ''leaderboard:top10'' 1000 new_CacheManager) = JNull"
    by (simp add: CacheManager_get_def new_CacheManager_def)
  have fails: "throwing ''database unavailable'' () = (Inl (Thrown ''database unavailable''), ())"
    by (simp add: throwing_def)
  have absent: "Map_get (store new_CacheManager) ''leaderboard:top10'' = None"
    by (simp add: new_CacheManager_def)
  show ?thesis
    using getOrSet_failure_not_cached
            [where fetch = "throwing ''database unavailable''", OF miss fails, of None 1001]
          absent
    by (auto simp: case_prod_beta)
qed

section \<open>A second \<open>getOrSet\<close> within the ttl is served from the cache\<close>

text \<open>
  Claim C4 quantifies over every callback. One that resolves to \<^verbatim>\<open>null\<close> is invoked by
  both of two calls made within the ttl: \<^verbatim>\<open>getOrSet\<close> takes the \<^verbatim>\<open>null\<close> that
  \<^verbatim>\<open>get\<close> returns for the stored value as a miss.
\<close>

theorem getOrSet_null_twice_counterexample:
  "let (r1, cw1) = CacheManager_getOrSet ''k'' (counted (returning JNull)) (Some 60000)
                     1000 1001 (new_CacheManager, (0, ()));
       (r2, c2, n2, w2) = CacheManager_getOrSet ''k'' (counted (returning JNull)) (Some 60000)
                     1002 1003 cw1
   in r1 = Inr JNull \<and> r2 = Inr JNull \<and> n2 = 2"
  by (simp add: CacheManager_getOrSet_def CacheManager_get_def CacheManager_set_def
      new_CacheManager_def new_CacheEntry_def isExpired_def counted_def returning_def)

text \<open>
  Claim C4, amended. For every key whose lookup misses at the first call, every ttl and
  every callback that resolves to a value other than \<^verbatim>\<open>null\<close>: of two calls, the second
  looking the key up within the ttl of the moment the first stored the value, the
  callback is invoked exactly once, and the second call returns the cached value.
\<close>

theorem getOrSet_dedup:
  assumes "fst (CacheManager_get key t1 c) = JNull"
      and "fetch w = (Inr v, w')"
      and "v \<noteq> JNull"
      and "t3 - t2 \<le> ttl_ms"
  shows "let (r1, cw1) = CacheManager_getOrSet key (counted fetch) (Some ttl_ms) t1 t2
                           (c, (0, w));
             (r2, c2, n2, w2) = CacheManager_getOrSet key (counted fetch) (Some ttl_ms) t3 t4
                           cw1
         in r1 = Inr v \<and> r2 = Inr v \<and> n2 = 1 \<and> w2 = w'"
proof -
  let ?c1 = "CacheManager_set key v (Some ttl_ms) t2 (snd (CacheManager_get key t1 c))"
  have first: "CacheManager_getOrSet key (counted fetch) (Some ttl_ms) t1 t2 (c, (0, w)) =
                 (Inr v, ?c1, (Suc 0, w'))"
    by (rule getOrSet_miss_ok [OF assms(1)]) (rule counted_apply [where fetch = fetch, OF assms(2)])
  have live: "fst (CacheManager_get key t3 ?c1) = v"
    by (rule get_after_set_live [OF assms(4)])
  have second: "CacheManager_getOrSet key (counted fetch) (Some ttl_ms) t3 t4
                  (?c1, (Suc 0, w')) =
                  (Inr (fst (CacheManager_get key t3 ?c1)), snd (CacheManager_get key t3 ?c1),
                   (Suc 0, w'))"
    by (rule getOrSet_hit) (use live assms(3) in simp)
  show ?thesis
    by (simp add: first second live)
qed

text \<open>Stored at 1001 for a minute, served from the cache at 61001.\<close>

theorem getOrSet_dedup_witness:
  "let (r1, cw1) = CacheManager_getOrSet ''k'' (counted (returning (JStr ''rows''))) (Some 60000)
                     1000 1001 (new_CacheManager, (0, ()));
       (r2, c2, n2, w2) = CacheManager_getOrSet ''k'' (counted (returning (JStr ''rows'')))
                     (Some 60000) 61001 61002 cw1
   in r1 = Inr (JStr ''rows'') \<and> r2 = Inr (JStr ''rows'') \<and> n2 = 1"
proof -
  have miss: "fst (CacheManager_get ''k'' 1000 new_CacheManager) = JNull"
    by (simp add: CacheManager_get_def new_CacheManager_def)
  have ok: "returning (JStr ''rows'') () = (Inr (JStr ''rows''), ())"
    by (simp add: returning_def)
  have nn: "JStr ''rows'' \<noteq> JNull" by simp
  have within: "(61001::int) - 1001 \<le> 60000" by simp
  show ?thesis
    using getOrSet_dedup [where fetch = "returning (JStr ''rows'')", OF miss ok nn within,
            of 61002]
    by (auto simp: case_prod_beta)
qed

section \<open>A cached \<open>null\<close> reads as a miss\<close>

lemma getOrSet_null_step:
  assumes "storedValue c key = JNull" and "\<forall>w. fst (fetch w) = Inr JNull"
  shows "fst (CacheManager_getOrSet key (counted fetch) ttl_arg now_get now_set (c, (n, w)))
           = Inr JNull
       \<and> storedValue (fst (snd (CacheManager_getOrSet key (counted fetch) ttl_arg now_get
                                   now_set (c, (n, w))))) key = JNull
       \<and> fst (snd (snd (CacheManager_getOrSet key (counted fetch) ttl_arg now_get now_set
                          (c, (n, w))))) = Suc n"
proof -
  have miss: "fst (CacheManager_get key now_get c) = JNull"
    by (rule storedValue_null_get [OF assms(1)])
  obtain w' where run: "fetch w = (Inr JNull, w')"
    using assms(2) by (metis prod.collapse)
  have "CacheManager_getOrSet key (counted fetch) ttl_arg now_get now_set (c, (n, w)) =
          (Inr JNull,
           CacheManager_set key JNull ttl_arg now_set (snd (CacheManager_get key now_get c)),
           (Suc n, w'))"
    by (rule getOrSet_miss_ok [OF miss]) (rule counted_apply [where fetch = fetch, OF run])
  then show ?thesis by simp
qed

lemma getOrSet_calls_null:
  assumes "storedValue c key = JNull" and "\<forall>w. fst (fetch w) = Inr JNull"
  shows "fst (getOrSet_calls key (counted fetch) ttl_arg readings (c, (n, w)))
           = replicate (length readings) (Inr JNull)
       \<and> fst (snd (snd (getOrSet_calls key (counted fetch) ttl_arg readings (c, (n, w)))))
           = n + length readings"
  using assms(1)
proof (induction readings arbitrary: c n w)
  case Nil
  then show ?case by simp
next
  case (Cons t readings)
  obtain now_get now_set where t: "t = (now_get, now_set)"
    by (cases t)
  let ?step = "CacheManager_getOrSet key (counted fetch) ttl_arg now_get now_set (c, (n, w))"
  obtain r c' n' w' where step: "?step = (r, c', (n', w'))"
    by (metis prod.collapse)
  have facts: "r = Inr JNull" "storedValue c' key = JNull" "n' = Suc n"
    using getOrSet_null_step [OF Cons.prems assms(2), of ttl_arg now_get now_set n w] step
    by simp_all
  show ?case
    using Cons.IH [OF facts(2), of n' w'] facts
    by (simp add: t step case_prod_beta)
qed

text \<open>
  Claim C9. \<^verbatim>\<open>get\<close> returns \<^verbatim>\<open>null\<close> when the key is absent, when its entry has
  expired, and when the stored value is \<^verbatim>\<open>null\<close>. \<^verbatim>\<open>getOrSet\<close> takes each of them
  for a miss: with a callback that resolves to \<^verbatim>\<open>null\<close>, starting from a cache where the
  key holds no value, every call of any sequence of calls invokes the callback, whatever
  the ttl and the clock readings.
\<close>

theorem cached_null_is_a_miss:
  "(Map_get (store c) key = None \<longrightarrow> fst (CacheManager_get key now c) = JNull)
   \<and> (\<forall>entry. Map_get (store c) key = Some entry \<and> isExpired entry now \<longrightarrow>
         fst (CacheManager_get key now c) = JNull)
   \<and> (\<forall>entry. Map_get (store c) key = Some entry \<and> entryValue entry = JNull \<longrightarrow>
         fst (CacheManager_get key now c) = JNull)
   \<and> (storedValue c key = JNull \<and> (\<forall>w. fst (fetch w) = Inr JNull) \<longrightarrow>
        (let (rs, c', n, w') = getOrSet_calls key (counted fetch) ttl_arg readings (c, (0, w))
         in rs = replicate (length readings) (Inr JNull) \<and> n = length readings))"
proof (intro conjI allI impI)
  assume "Map_get (store c) key = None"
  then show "fst (CacheManager_get key now c) = JNull"
    by (simp add: get_absent)
next
  fix entry
  assume "Map_get (store c) key = Some entry \<and> isExpired entry now"
  then show "fst (CacheManager_get key now c) = JNull"
    by (simp add: get_expired)
next
  fix entry
  assume "Map_get (store c) key = Some entry \<and> entryValue entry = JNull"
  then have "storedValue c key = JNull"
    by (simp add: storedValue_def)
  then show "fst (CacheManager_get key now c) = JNull"
    by (rule storedValue_null_get)
next
  assume a: "storedValue c key = JNull \<and> (\<forall>w. fst (fetch w) = Inr JNull)"
  show "let (rs, c', n, w') = getOrSet_calls key (counted fetch) ttl_arg readings (c, (0, w))
        in rs = replicate (length readings) (Inr JNull) \<and> n = length readings"
    using getOrSet_calls_null [of c key fetch ttl_arg readings 0 w] a
    by (simp add: case_prod_beta)
qed

text \<open>The three lookups that give \<^verbatim>\<open>null\<close>, and three calls that each recompute it.\<close>

theorem cached_null_is_a_miss_witness:
  "fst (CacheManager_get ''k'' 1000 new_CacheManager) = JNull
   \<and> fst (CacheManager_get ''k'' 2000
            (CacheManager_set ''k'' (JNum 1) (Some 10) 1000 new_CacheManager)) = JNull
   \<and> fst (CacheManager_get ''k'' 1005
            (CacheManager_set ''k'' JNull (Some 10) 1000 new_CacheManager)) = JNull
   \<and> (let (rs, c', n, w') =
          getOrSet_calls ''k'' (counted (returning JNull)) (Some 60000)
            [(1000, 1001), (1002, 1003), (1004, 1005)] (new_CacheManager, (0, ()))
      in rs = [Inr JNull, Inr JNull, Inr JNull] \<and> n = 3)"
proof -
  let ?stale = "CacheManager_set ''k'' (JNum 1) (Some 10) 1000 new_CacheManager"
  let ?null = "CacheManager_set ''k'' JNull (Some 10) 1000 new_CacheManager"
  have absent: "Map_get (store new_CacheManager) ''k'' = None"
    by (simp add: new_CacheManager_def)
  have stale: "Map_get (store ?stale) ''k'' = Some (new_CacheEntry (JNum 1) 10 1000)
                 \<and> isExpired (new_CacheEntry (JNum 1) 10 1000) 2000"
    by (simp add: CacheManager_set_def isExpired_def new_CacheEntry_def)
  have null: "Map_get (store ?null) ''k'' = Some (new_CacheEntry JNull 10 1000)
                \<and> entryValue (new_CacheEntry JNull 10 1000) = JNull"
    by (simp add: CacheManager_set_def new_CacheEntry_def)
  have empty: "storedValue new_CacheManager ''k'' = JNull
                 \<and> (\<forall>w::unit. fst (returning JNull w) = Inr JNull)"
    by (simp add: storedValue_def new_CacheManager_def returning_def)
  have p1: "fst (CacheManager_get ''k'' 1000 new_CacheManager) = JNull"
    using cached_null_is_a_miss [of new_CacheManager "''k''" 1000 "returning JNull" None "[]" "()"]
      absent by blast
  have p2: "fst (CacheManager_get ''k'' 2000 ?stale) = JNull"
    using cached_null_is_a_miss [of ?stale "''k''" 2000 "returning JNull" None "[]" "()"]
      stale by blast
  have p3: "fst (CacheManager_get ''k'' 1005 ?null) = JNull"
    using cached_null_is_a_miss [of ?null "''k''" 1005 "returning JNull" None "[]" "()"]
      null by blast
  have p4: "let (rs, c', n, w') =
              getOrSet_calls ''k'' (counted (returning JNull)) (Some 60000)
                [(1000, 1001), (1002, 1003), (1004, 1005)] (new_CacheManager, (0, ()))
            in rs = replicate (length [(1000::int, 1001::int), (1002, 1003), (1004, 1005)])
                      (Inr JNull)
               \<and> n = length [(1000::int, 1001::int), (1002, 1003), (1004, 1005)]"
    using cached_null_is_a_miss [of new_CacheManager "''k''" 1000 "returning JNull"
        "Some 60000" "[(1000, 1001), (1002, 1003), (1004, 1005)]" "()"] empty
    by blast
  have rep: "replicate (length [(1000::int, 1001::int), (1002, 1003), (1004, 1005)])
               (Inr JNull :: error + jsval) = [Inr JNull, Inr JNull, Inr JNull]"
    by (simp add: numeral_3_eq_3)
  show ?thesis
    using p1 p2 p3 p4 rep by (auto simp: case_prod_beta)
qed

section \<open>Errors of the memory estimate reach the caller of \<open>getStats\<close>\<close>

lemma JSON_stringify_error: "JSON_stringify v = Inl err \<Longrightarrow> err = TypeError"
  by (cases v) simp_all

lemma estimate_loop_eq:
  "estimate_loop entries bytes =
     (if \<forall>entry \<in> set entries. serializes (entryValue entry)
      then Inr (bytes + sum_list (map (\<lambda>entry. json_length (entryValue entry) * 2) entries))
      else Inl TypeError)"
proof (induction entries arbitrary: bytes)
  case Nil
  then show ?case by simp
next
  case (Cons entry rest)
  show ?case
  proof (cases "JSON_stringify (entryValue entry)")
    case (Inl err)
    then show ?thesis
      using JSON_stringify_error [OF Inl] by (simp add: serializes_def)
  next
    case (Inr r)
    then show ?thesis
      using Cons.IH by (cases r) (simp_all add: serializes_def json_length_def)
  qed
qed

text \<open>
  Claim C6 says that \<^verbatim>\<open>getStats\<close> never throws. Neither it nor
  \<^verbatim>\<open>estimateMemoryUsage\<close> has a \<^verbatim>\<open>try\<close>: with a BigInt in the cache,
  \<^verbatim>\<open>JSON.stringify\<close> throws a \<^verbatim>\<open>TypeError\<close> and \<^verbatim>\<open>getStats\<close> ends with it.
\<close>

theorem getStats_bigint_counterexample:
  "CacheManager_getStats (CacheManager_set ''leaderboard:top10'' (JBigInt 9007199254740993)
     None 1000 new_CacheManager) = Inl TypeError"
  by (simp add: CacheManager_getStats_def CacheManager_estimateMemoryUsage_def
      CacheManager_set_def new_CacheManager_def new_CacheEntry_def Let_def)

text \<open>
  Claim C6, amended. \<^verbatim>\<open>getStats\<close> does not catch an error of the memory estimate. It
  returns normally exactly when every stored value serializes, and then reports twice the
  total length of the JSON texts, in KB with two decimals; when some stored value does
  not serialize (a BigInt, \<^verbatim>\<open>undefined\<close>), the \<^verbatim>\<open>TypeError\<close> reaches its caller.
\<close>

theorem getStats_estimate:
  "if \<forall>entry \<in> set (map snd (store c)). serializes (entryValue entry)
   then \<exists>st. CacheManager_getStats c = Inr st
          \<and> estimatedMemory st =
              kilobytes_toFixed2
                (sum_list (map (\<lambda>entry. json_length (entryValue entry) * 2)
                   (map snd (store c)))) @ '' KB''
   else CacheManager_getStats c = Inl TypeError"
  by (simp add: CacheManager_getStats_def CacheManager_estimateMemoryUsage_def
      estimate_loop_eq Let_def del: set_map)

text \<open>A string and a number: 12 bytes, reported as 0.01 KB.\<close>

theorem getStats_estimate_witness:
  "\<exists>st. CacheManager_getStats
          (CacheManager_set ''b'' (JNum 12) None 1001
            (CacheManager_set ''a'' (JStr ''ab'') None 1000 new_CacheManager)) = Inr st
        \<and> estimatedMemory st = ''0.01 KB''"
proof -
  let ?c = "CacheManager_set ''b'' (JNum 12) None 1001
              (CacheManager_set ''a'' (JStr ''ab'') None 1000 new_CacheManager)"
  have st: "map snd (store ?c) =
              [new_CacheEntry (JStr ''ab'') 300000 1000, new_CacheEntry (JNum 12) 300000 1001]"
    by (simp add: CacheManager_set_def new_CacheManager_def)
  have d: "decimal 12 = ''12''" "decimal 0 = ''0''"
    by code_simp+
  have ser: "\<forall>entry \<in> set (map snd (store ?c)). serializes (entryValue entry)"
    unfolding st by (simp add: serializes_def new_CacheEntry_def)
  have total: "sum_list (map (\<lambda>entry. json_length (entryValue entry) * 2)
                 (map snd (store ?c))) = 12"
    unfolding st by (simp add: json_length_def new_CacheEntry_def json_escape_def d)
  have kb: "kilobytes_toFixed2 12 = ''0.01''"
    by (simp add: kilobytes_toFixed2_def d)
  show ?thesis
    using getStats_estimate [of ?c] ser total kb by simp
qed

end
